theory Spec2Isabelle
  imports Complex_Main "HOL-Library.Sublist" "HOL-Library.Word"
begin

section \<open>Configuration\<close>

text \<open>
  The RAG settings of class \<open>Config\<close> in \<open>api/index.py\<close>. Python integers are
  unbounded, so they are modelled as \<open>int\<close>; the score threshold is a Python float and is
  modelled by the real number its literal denotes.
\<close>

definition CHUNK_SIZE :: int where
  "CHUNK_SIZE = 1000"

definition CHUNK_OVERLAP :: int where
  "CHUNK_OVERLAP = 200"



section \<open>Python string primitives\<close>

text \<open>
  A Python \<open>str\<close> is a sequence of code points; the model is \<open>string\<close>, a list of
  \<open>char\<close>, each \<open>char\<close> standing for one code point below 256, so that \<open>length\<close>
  counts what Python's \<open>len\<close> counts.
\<close>

definition LF :: char where
  "LF = CHR 0x0A"

definition CR :: char where
  "CR = CHR 0x0D"

text \<open>
  \<open>str.isspace\<close> on one code point, which is the set \<open>str.strip()\<close> removes: the ASCII
  controls 9 to 13 and 28 to 31, the space, NEL (0x85) and the no-break space (0xA0).
\<close>

definition is_space :: "char \<Rightarrow> bool" where
  "is_space c =
     (let n = (of_char c :: nat)
      in (9 \<le> n \<and> n \<le> 13) \<or> (28 \<le> n \<and> n \<le> 32) \<or> n = 133 \<or> n = 160)"

text \<open>\<open>s.strip()\<close>: whitespace is dropped at both ends.\<close>

definition strip :: "string \<Rightarrow> string" where
  "strip s = rev (dropWhile is_space (rev (dropWhile is_space s)))"

text \<open>
  \<open>s.replace('\r\n', '\n')\<close>: a left-to-right scan that replaces every occurrence of the
  two-character sequence and continues after it.
\<close>

fun replace_crlf :: "string \<Rightarrow> string" where
  "replace_crlf [] = []"
| "replace_crlf [c] = [c]"
| "replace_crlf (c # d # s) =
     (if c = CR \<and> d = LF then LF # replace_crlf s else c # replace_crlf (d # s))"

text \<open>
  Index adjustment of slices: a negative index counts from the end, and the result is
  clamped to \<open>[0, n]\<close>.
\<close>

definition slice_index :: "nat \<Rightarrow> int \<Rightarrow> nat" where
  "slice_index n i = (if i < 0 then nat (int n + i) else min n (nat i))"

text \<open>\<open>s[lo:hi]\<close>.\<close>

definition slice :: "'a list \<Rightarrow> int \<Rightarrow> int \<Rightarrow> 'a list" where
  "slice s lo hi =
     (let l = slice_index (length s) lo; h = slice_index (length s) hi
      in take (h - l) (drop l s))"

text \<open>\<open>sub\<close> occurs in \<open>s\<close> at offset \<open>p\<close>: \<open>s[p:p+len(sub)] == sub\<close>.\<close>

definition occurs_at :: "string \<Rightarrow> string \<Rightarrow> nat \<Rightarrow> bool" where
  "occurs_at s sub p = (take (length sub) (drop p s) = sub)"

text \<open>
  The backward scan of \<open>rfind\<close>: offsets \<open>l + n - 1\<close> down to \<open>l\<close> are tried in this
  order, the first hit is returned, and \<open>-1\<close> when there is none.
\<close>

fun rfind_down :: "string \<Rightarrow> string \<Rightarrow> nat \<Rightarrow> nat \<Rightarrow> int" where
  "rfind_down s sub l 0 = - 1"
| "rfind_down s sub l (Suc n) =
     (if occurs_at s sub (l + n) then int (l + n) else rfind_down s sub l n)"

text \<open>
  \<open>s.rfind(sub, lo, hi)\<close>: the highest offset \<open>p\<close> with \<open>lo \<le> p\<close> and
  \<open>p + len(sub) \<le> hi\<close> at which \<open>sub\<close> occurs, after the index adjustment of CPython
  (\<open>hi\<close> clamped to the length, negative indices counted from the end, \<open>lo\<close> not clamped
  from above).
\<close>

definition rfind :: "string \<Rightarrow> string \<Rightarrow> int \<Rightarrow> int \<Rightarrow> int" where
  "rfind s sub lo hi =
     (let l = (if lo < 0 then nat (int (length s) + lo) else nat lo);
          h = slice_index (length s) hi
      in rfind_down s sub l (h + 1 - length sub - l))"

section \<open>Chunker\<close>

text \<open>
  Lines 127 to 137 of \<open>chunk_text\<close>: the end of the window that starts at \<open>start\<close>,
  moved back to a paragraph break or just behind the full stop of a sentence break found in
  the second half of the window.
\<close>

definition cut_point :: "string \<Rightarrow> int \<Rightarrow> int" where
  "cut_point text start =
     (let end = start + CHUNK_SIZE
      in if end < int (length text) then
           (let para_break = rfind text [LF, LF] (start + CHUNK_SIZE div 2) end
            in if para_break > 0 then para_break
               else (let sent_break = rfind text ''. '' (start + CHUNK_SIZE div 2) end
                     in if sent_break > 0 then sent_break + 1 else end))
         else end)"

text \<open>Lines 143 to 145: the next scan position.\<close>

definition next_start :: "int \<Rightarrow> int" where
  "next_start end = (let start = end - CHUNK_OVERLAP in if start < 0 then 0 else start)"

lemma rfind_down_range:
  "rfind_down s sub l n = - 1 \<or> (int l \<le> rfind_down s sub l n \<and> rfind_down s sub l n < int (l + n))"
  by (induction n) auto

lemma rfind_lower:
  assumes "0 \<le> lo"
  shows "rfind s sub lo hi = - 1 \<or> lo \<le> rfind s sub lo hi"
proof -
  have "rfind s sub lo hi = rfind_down s sub (nat lo) (slice_index (length s) hi + 1 - length sub - nat lo)"
    using assms by (simp add: rfind_def Let_def)
  then show ?thesis
    using rfind_down_range [of s sub "nat lo" "slice_index (length s) hi + 1 - length sub - nat lo"] assms
    by auto
qed

lemma cut_point_lower:
  assumes "0 \<le> start"
  shows "start + 500 \<le> cut_point text start"
proof -
  have "rfind text [LF, LF] (start + 500) (start + 1000) = - 1
        \<or> start + 500 \<le> rfind text [LF, LF] (start + 500) (start + 1000)"
    using assms by (intro rfind_lower) simp
  moreover have "rfind text ''. '' (start + 500) (start + 1000) = - 1
        \<or> start + 500 \<le> rfind text ''. '' (start + 500) (start + 1000)"
    using assms by (intro rfind_lower) simp
  ultimately show ?thesis
    by (auto simp: cut_point_def CHUNK_SIZE_def Let_def)
qed

lemma cut_point_positive:
  assumes "start < 0"
  shows "start < cut_point text start"
  using assms by (auto simp: cut_point_def CHUNK_SIZE_def Let_def)

lemma next_start_progress: "start < next_start (cut_point text start)"
proof (cases "0 \<le> start")
  case True
  from cut_point_lower [OF True, of "text"] show ?thesis
    by (simp add: next_start_def CHUNK_OVERLAP_def Let_def)
next
  case False
  then show ?thesis
    by (simp add: next_start_def CHUNK_OVERLAP_def Let_def)
qed

text \<open>
  The \<open>while\<close> loop of \<open>chunk_text\<close> (lines 126 to 145), with the list \<open>chunks\<close> as
  accumulator.
\<close>

function chunk_loop :: "string \<Rightarrow> int \<Rightarrow> string list \<Rightarrow> string list" where
  "chunk_loop text start chunks =
     (if start < int (length text) then
        (let end = cut_point text start;
             chunk = strip (slice text start end)
         in chunk_loop text (next_start end) (if chunk \<noteq> [] then chunks @ [chunk] else chunks))
      else chunks)"
  by pat_completeness auto
termination
proof (relation "measure (\<lambda>(text, start, chunks). nat (int (length text) - start))")
  show "wf (measure (\<lambda>(text, start, chunks). nat (int (length text) - start)))"
    by simp
next
  fix t :: string and start :: int and chunks :: "string list" and e c
  assume "start < int (length t)" and "e = cut_point t start"
  then show "((t, next_start e, if c \<noteq> [] then chunks @ [c] else chunks), (t, start, chunks))
        \<in> measure (\<lambda>(text, start, chunks). nat (int (length text) - start))"
    using next_start_progress [of start t] by simp
qed

declare chunk_loop.simps [simp del]

text \<open>\<open>chunk_text\<close>, lines 117 to 147.\<close>

definition chunk_text :: "string \<Rightarrow> string list" where
  "chunk_text text0 =
     (let text = strip (replace_crlf text0)
      in if int (length text) \<le> CHUNK_SIZE then (if text \<noteq> [] then [text] else [])
         else chunk_loop text 0 [])"

text \<open>
  The trace of the loop: the windows \<open>(start, end)\<close> of its iterations, in order. It is
  the same recursion as \<open>chunk_loop\<close> with the slices left out, and
  \<open>window_chunks\<close> turns a trace into the chunks the loop appends.
\<close>

function chunk_windows :: "string \<Rightarrow> int \<Rightarrow> (int \<times> int) list" where
  "chunk_windows text start =
     (if start < int (length text) then
        (let end = cut_point text start in (start, end) # chunk_windows text (next_start end))
      else [])"
  by pat_completeness auto
termination
proof (relation "measure (\<lambda>(text, start). nat (int (length text) - start))")
  show "wf (measure (\<lambda>(text, start). nat (int (length text) - start)))"
    by simp
next
  fix t :: string and start :: int and e
  assume "start < int (length t)" and "e = cut_point t start"
  then show "((t, next_start e), (t, start)) \<in> measure (\<lambda>(text, start). nat (int (length text) - start))"
    using next_start_progress [of start t] by simp
qed

declare chunk_windows.simps [simp del]

definition window_chunks :: "string \<Rightarrow> (int \<times> int) list \<Rightarrow> string list" where
  "window_chunks text ws = filter (\<lambda>c. c \<noteq> []) (map (\<lambda>(s, e). strip (slice text s e)) ws)"

text \<open>
  A break \<open>sub\<close> lies in the search region of the window at \<open>start\<close>: it begins at or
  after the midpoint and ends at or before the right edge.
\<close>

definition break_in_window :: "string \<Rightarrow> string \<Rightarrow> int \<Rightarrow> int \<Rightarrow> bool" where
  "break_in_window text sub start p =
     (start + CHUNK_SIZE div 2 \<le> p \<and> p + int (length sub) \<le> start + CHUNK_SIZE
      \<and> occurs_at text sub (nat p))"

section \<open>Exceptions and external services\<close>

text \<open>
  A raised exception is a value: \<open>HTTPException\<close> with its status code and detail, or any
  other exception, of which only \<open>str(e)\<close> is ever used.
\<close>

datatype exn = HTTPException nat string | Error string

text \<open>\<open>str(e)\<close>; for an \<open>HTTPException\<close> this is \<open>"{status_code}: {detail}"\<close>.\<close>

fun str_nat :: "nat \<Rightarrow> string" where
  "str_nat n =
     (if n < 10 then [''0123456789'' ! n]
      else str_nat (n div 10) @ [''0123456789'' ! (n mod 10)])"

declare str_nat.simps [simp del]


type_synonym byte = "8 word"

type_synonym embedding = "real list"

text \<open>A metadata dictionary of the vector index, as the code reads it: string keys and values.\<close>

type_synonym metadata_dict = "string \<rightharpoonup> string"

record upload_file =
  filename :: string
  file_bytes :: "byte list"

record chunk_metadata =
  md_text :: string
  document_id :: string
  md_filename :: string
  chunk_index :: nat
  total_chunks :: nat
  uploaded_at :: string
  is_first_chunk :: bool

record chunk_record =
  chunk_id :: string
  embedding :: embedding
  metadata :: chunk_metadata

record index_match =
  im_id :: string
  im_score :: real
  im_metadata :: metadata_dict

record chat_message =
  role :: string
  content :: string

text \<open>
  The collaborators the code calls: PyMuPDF, python-docx, the UTF-8 codec, the OpenAI
  client, the Pinecone index, the clock and the random generator. Each call returns either
  the message of the exception it raised (\<open>Inl\<close>) or its result.
\<close>

record services =
  pdf_pages :: "byte list \<Rightarrow> string + string list"
  docx_paragraphs :: "byte list \<Rightarrow> string + string list"
  utf8_decode :: "byte list \<Rightarrow> string + string"
  embeddings_create :: "string list \<Rightarrow> string + embedding list"
  index_upsert :: "chunk_record list \<Rightarrow> string option"
  index_query :: "embedding \<Rightarrow> int \<Rightarrow> string + index_match list"
  chat_completions_create :: "chat_message list \<Rightarrow> string + string"
  generate_document_id :: string
  utcnow_isoformat :: string

section \<open>Document processing\<close>

text \<open>\<open>str.lower\<close> on one code point below 256: A to Z and the Latin-1 capitals.\<close>

definition lower_char :: "char \<Rightarrow> char" where
  "lower_char c =
     (let n = (of_char c :: nat)
      in if (65 \<le> n \<and> n \<le> 90) \<or> (192 \<le> n \<and> n \<le> 222 \<and> n \<noteq> 215)
         then char_of (n + 32) else c)"

definition lower :: "string \<Rightarrow> string" where
  "lower s = map lower_char s"

text \<open>\<open>sep.join(xs)\<close>.\<close>

fun join :: "string \<Rightarrow> string list \<Rightarrow> string" where
  "join sep [] = []"
| "join sep [x] = x"
| "join sep (x # y # ys) = x @ sep @ join sep (y # ys)"

text \<open>\<open>extract_text\<close>, lines 91 to 114.\<close>

definition extract_text :: "services \<Rightarrow> upload_file \<Rightarrow> exn + string" where
  "extract_text sv file =
     (let content = file_bytes file; fname = lower (filename file)
      in if suffix ''.pdf'' fname then
           (case pdf_pages sv content of
              Inl e \<Rightarrow> Inl (Error e)
            | Inr pages \<Rightarrow> Inr (concat pages))
         else if suffix ''.docx'' fname then
           (case docx_paragraphs sv content of
              Inl e \<Rightarrow> Inl (Error e)
            | Inr paras \<Rightarrow> Inr (join [LF] paras))
         else if suffix ''.txt'' fname \<or> suffix ''.md'' fname \<or> suffix ''.csv'' fname then
           (case utf8_decode sv content of
              Inl e \<Rightarrow> Inl (Error e)
            | Inr text \<Rightarrow> Inr text)
         else Inl (HTTPException 400 (''Unsupported file type: '' @ fname)))"

section \<open>Embeddings and vector index\<close>


definition generate_embeddings_batch :: "services \<Rightarrow> string list \<Rightarrow> exn + embedding list" where
  "generate_embeddings_batch sv texts =
     (case embeddings_create sv texts of Inl e \<Rightarrow> Inl (Error e) | Inr ds \<Rightarrow> Inr ds)"

text \<open>\<open>store_chunks\<close>: one upsert for each batch of 100, stopping at the first that raises.\<close>

function store_chunks :: "services \<Rightarrow> chunk_record list \<Rightarrow> exn + unit" where
  "store_chunks sv chunks =
     (if chunks = [] then Inr ()
      else (case index_upsert sv (take 100 chunks) of
              Some e \<Rightarrow> Inl (Error e)
            | None \<Rightarrow> store_chunks sv (drop 100 chunks)))"
  by pat_completeness auto
termination
  by (relation "measure (\<lambda>(sv, chunks). length chunks)") auto

declare store_chunks.simps [simp del]




section \<open>RAG pipeline\<close>

definition SYSTEM_PROMPT :: string where
  "SYSTEM_PROMPT =
     ''You are an intelligent assistant for MBA students. Your role is to:\<newline>'' @
     ''- Help students understand their course materials\<newline>'' @
     ''- Explain concepts clearly and concisely\<newline>'' @
     ''- Connect ideas across different readings\<newline>'' @
     ''- Provide practical business examples when relevant\<newline>'' @
     ''\<newline>'' @
     ''When answering questions:\<newline>'' @
     ''1. Base your answers on the provided context from the student'' @ [CHR 0x27] @ ''s documents\<newline>'' @
     ''2. If the context doesn'' @ [CHR 0x27] @ ''t contain relevant information, say so\<newline>'' @
     ''3. Use clear, professional language appropriate for business school\<newline>'' @
     ''4. Cite which documents you'' @ [CHR 0x27] @ ''re drawing from when relevant''"

text \<open>The second system message: the context block, or the notice when the context is empty.\<close>

definition context_block :: "string \<Rightarrow> chat_message" where
  "context_block context =
     \<lparr>role = ''system'',
      content = ''Here is relevant information from the student'' @ [CHR 0x27] @ ''s documents:\<newline>\<newline>''
        @ context
        @ ''\<newline>\<newline>Use this to answer the question. Cite sources when appropriate.''\<rparr>"

definition no_documents_notice :: chat_message where
  "no_documents_notice =
     \<lparr>role = ''system'',
      content = ''No relevant documents were found. Let the student know they should upload relevant materials, but still try to help with general knowledge.''\<rparr>"

text \<open>
  One entry of the request's history is a dictionary; reading a missing key raises KeyError,
  whose \<open>str\<close> is the quoted key.
\<close>

definition history_message :: "(string \<rightharpoonup> string) \<Rightarrow> exn + chat_message" where
  "history_message msg =
     (case msg ''role'' of
        None \<Rightarrow> Inl (Error ([CHR 0x27] @ ''role'' @ [CHR 0x27]))
      | Some r \<Rightarrow>
          (case msg ''content'' of
             None \<Rightarrow> Inl (Error ([CHR 0x27] @ ''content'' @ [CHR 0x27]))
           | Some c \<Rightarrow> Inr \<lparr>role = r, content = c\<rparr>))"

text \<open>The \<open>for\<close> loop over the history: it stops at the first entry that raises.\<close>

fun history_messages :: "(string \<rightharpoonup> string) list \<Rightarrow> exn + chat_message list" where
  "history_messages [] = Inr []"
| "history_messages (msg # rest) =
     (case history_message msg of
        Inl e \<Rightarrow> Inl e
      | Inr m \<Rightarrow> (case history_messages rest of Inl e \<Rightarrow> Inl e | Inr ms \<Rightarrow> Inr (m # ms)))"

text \<open>\<open>xs[-6:]\<close>.\<close>

definition last6 :: "'a list \<Rightarrow> 'a list" where
  "last6 xs = slice xs (- 6) (int (length xs))"

text \<open>
  Lines 263 to 281 of \<open>generate_answer\<close>: the message list that is sent to the chat model.
  \<open>if history:\<close> is false for \<open>None\<close> and for the empty list.
\<close>

definition answer_messages ::
    "string \<Rightarrow> string \<Rightarrow> (string \<rightharpoonup> string) list option \<Rightarrow> exn + chat_message list" where
  "answer_messages question context hist =
     (let messages = [\<lparr>role = ''system'', content = SYSTEM_PROMPT\<rparr>];
          messages = messages @ [if context \<noteq> [] then context_block context else no_documents_notice]
      in case (case hist of
                 None \<Rightarrow> Inr []
               | Some h \<Rightarrow> if h \<noteq> [] then history_messages (last6 h) else Inr []) of
           Inl e \<Rightarrow> Inl e
         | Inr hs \<Rightarrow> Inr (messages @ hs @ [\<lparr>role = ''user'', content = question\<rparr>]))"


section \<open>API endpoints\<close>


record source =
  src_text :: string
  src_score :: real
  src_filename :: string

record chat_response =
  answer :: string
  sources :: "source list"





record upload_response =
  success :: bool
  r_document_id :: string
  r_filename :: string
  r_chunks :: nat

text \<open>Lines 367 to 381: one record for each pair of \<open>zip(text_chunks, embeddings)\<close>.\<close>

definition chunk_records ::
    "string \<Rightarrow> string \<Rightarrow> string \<Rightarrow> string list \<Rightarrow> embedding list \<Rightarrow> chunk_record list" where
  "chunk_records doc_id uploaded fname text_chunks embeddings =
     map (\<lambda>(i, text_chunk, emb).
            \<lparr>chunk_id = doc_id @ ''_chunk_'' @ str_nat i,
             embedding = emb,
             metadata = \<lparr>md_text = text_chunk,
                         document_id = doc_id,
                         md_filename = fname,
                         chunk_index = i,
                         total_chunks = length text_chunks,
                         uploaded_at = uploaded,
                         is_first_chunk = (i = 0)\<rparr>\<rparr>)
         (enumerate 0 (zip text_chunks embeddings))"

text \<open>
  \<open>upload\<close>, lines 346 to 396: an \<open>HTTPException\<close> is raised again as it is, every other
  exception becomes a response with status 500.
\<close>

definition upload :: "services \<Rightarrow> upload_file \<Rightarrow> exn + upload_response" where
  "upload sv file =
     (case (case extract_text sv file of
              Inl e \<Rightarrow> Inl e
            | Inr text \<Rightarrow>
                if strip text = [] then Inl (HTTPException 400 ''Could not extract text from file'')
                else (let text_chunks = chunk_text text
                      in if text_chunks = [] then Inl (HTTPException 400 ''No content to process'')
                         else (case generate_embeddings_batch sv text_chunks of
                                 Inl e \<Rightarrow> Inl e
                               | Inr embeddings \<Rightarrow>
                                   (let doc_id = generate_document_id sv;
                                        uploaded = utcnow_isoformat sv;
                                        chunks = chunk_records doc_id uploaded (filename file)
                                                   text_chunks embeddings
                                    in case store_chunks sv chunks of
                                         Inl e \<Rightarrow> Inl e
                                       | Inr _ \<Rightarrow>
                                           Inr \<lparr>success = True,
                                                r_document_id = doc_id,
                                                r_filename = filename file,
                                                r_chunks = length text_chunks\<rparr>)))) of
        Inl (HTTPException status detail) \<Rightarrow> Inl (HTTPException status detail)
      | Inl (Error msg) \<Rightarrow> Inl (HTTPException 500 msg)
      | Inr response \<Rightarrow> Inr response)"







text \<open>A history entry with both keys, and a history of eight turns.\<close>

definition turn :: "string \<Rightarrow> string \<Rightarrow> (string \<rightharpoonup> string)" where
  "turn r c = [''role'' \<mapsto> r, ''content'' \<mapsto> c]"

definition eight_turns :: "(string \<rightharpoonup> string) list" where
  "eight_turns =
     [turn ''user'' ''1'', turn ''assistant'' ''2'', turn ''user'' ''3'', turn ''assistant'' ''4'',
      turn ''user'' ''5'', turn ''assistant'' ''6'', turn ''user'' ''7'', turn ''assistant'' ''8'']"

text \<open>
  Plain ASCII text, and a 2500-character text whose characters 800 to 1799 are spaces.
\<close>

definition plain_ascii :: "string \<Rightarrow> bool" where
  "plain_ascii s = list_all (\<lambda>c. (of_char c :: nat) < 128) s"

definition gap_text :: string where
  "gap_text = replicate 800 (CHR ''a'') @ replicate 1000 (CHR '' '') @ replicate 700 (CHR ''a'')"

section \<open>Properties of the chunker\<close>

subsection \<open>Facts about the string primitives\<close>

lemma strip_all_space:
  assumes "list_all is_space s"
  shows "strip s = []"
proof -
  from assms have h: "dropWhile is_space s = []"
    by (simp add: dropWhile_eq_Nil_conv list_all_iff)
  show ?thesis unfolding strip_def h by simp
qed

lemma strip_eq_Nil_iff: "strip s = [] \<longleftrightarrow> list_all is_space s"
proof
  assume "strip s = []"
  then have "\<forall>x \<in> set (rev (dropWhile is_space s)). is_space x"
    by (simp add: strip_def dropWhile_eq_Nil_conv del: set_rev)
  then have "dropWhile is_space s = []"
    by (metis dropWhile_eq_Nil_conv hd_dropWhile list.set_sel(1) set_rev)
  then show "list_all is_space s"
    by (simp add: dropWhile_eq_Nil_conv list_all_iff)
qed (rule strip_all_space)

lemma sublist_strip: "sublist (strip s) s"
proof -
  have "sublist (rev (strip s)) (rev s)"
    unfolding strip_def rev_rev_ident
    by (rule sublist_order.order.trans [OF sublist_dropWhile]) simp
  then show ?thesis by simp
qed

lemma length_strip_le: "length (strip s) \<le> length s"
  by (rule sublist_length_le [OF sublist_strip])

lemma strip_ident:
  assumes "s \<noteq> []" and "\<not> is_space (hd s)" and "\<not> is_space (last s)"
  shows "strip s = s"
proof -
  from assms(1,2) have "dropWhile is_space s = s"
    by (cases s) simp_all
  moreover from assms(1,3) have "dropWhile is_space (rev s) = rev s"
    by (cases "rev s") (simp_all add: last_rev [symmetric] del: last_rev)
  ultimately show ?thesis
    by (simp add: strip_def)
qed


lemma replace_crlf_ident: "\<not> sublist [CR, LF] s \<Longrightarrow> replace_crlf s = s"
  by (induction s rule: replace_crlf.induct) (auto simp: sublist_Cons_right)

lemma sublist_slice: "sublist (slice s lo hi) s"
  unfolding slice_def Let_def
  by (rule sublist_order.order.trans [OF sublist_take sublist_drop])

lemma length_slice_le:
  assumes "0 \<le> lo" and "lo \<le> hi"
  shows "int (length (slice s lo hi)) \<le> hi - lo"
  using assms by (auto simp: slice_def slice_index_def Let_def)

lemma occurs_at_sublist: "occurs_at s sub p \<Longrightarrow> sublist sub s"
  unfolding occurs_at_def
  by (metis sublist_drop sublist_order.order.trans sublist_take)

subsection \<open>Facts about the backward search\<close>

lemma rfind_down_none:
  "rfind_down s sub l n = - 1 \<Longrightarrow> l \<le> p \<Longrightarrow> p < l + n \<Longrightarrow> \<not> occurs_at s sub p"
  by (induction n) (auto split: if_splits simp: less_Suc_eq)

lemma rfind_down_hit:
  "rfind_down s sub l n \<noteq> - 1 \<Longrightarrow>
     \<exists>p. rfind_down s sub l n = int p \<and> l \<le> p \<and> p < l + n \<and> occurs_at s sub p
         \<and> (\<forall>q. p < q \<and> q < l + n \<longrightarrow> \<not> occurs_at s sub q)"
proof (induction n)
  case 0
  then show ?case by simp
next
  case (Suc n)
  show ?case
  proof (cases "occurs_at s sub (l + n)")
    case True
    then have "rfind_down s sub l (Suc n) = int (l + n) \<and> l \<le> l + n \<and> l + n < l + Suc n
        \<and> occurs_at s sub (l + n) \<and> (\<forall>q. l + n < q \<and> q < l + Suc n \<longrightarrow> \<not> occurs_at s sub q)"
      by auto
    then show ?thesis by blast
  next
    case False
    with Suc.prems have "rfind_down s sub l n \<noteq> - 1" by simp
    from Suc.IH [OF this] obtain p where p:
      "rfind_down s sub l n = int p" "l \<le> p" "p < l + n" "occurs_at s sub p"
      "\<forall>q. p < q \<and> q < l + n \<longrightarrow> \<not> occurs_at s sub q"
      by blast
    have "\<forall>q. p < q \<and> q < l + Suc n \<longrightarrow> \<not> occurs_at s sub q"
      using p(5) False by (auto simp: less_Suc_eq)
    with p False show ?thesis by auto
  qed
qed

lemma rfind_down_absent: "(\<And>p. \<not> occurs_at s sub p) \<Longrightarrow> rfind_down s sub l n = - 1"
  by (induction n) auto

lemma rfind_absent: "\<not> sublist sub s \<Longrightarrow> rfind s sub lo hi = - 1"
  unfolding rfind_def Let_def
  by (rule rfind_down_absent) (blast dest: occurs_at_sublist)

text \<open>Inside the text, the search of the window at \<open>start\<close> ranges over \<open>break_in_window\<close>.\<close>

lemma rfind_window:
  assumes "0 \<le> start" and "start + CHUNK_SIZE < int (length t)" and "sub \<noteq> []"
  defines "r \<equiv> rfind t sub (start + CHUNK_SIZE div 2) (start + CHUNK_SIZE)"
  shows "(r = - 1 \<and> (\<forall>p. \<not> break_in_window t sub start p))
       \<or> (0 < r \<and> break_in_window t sub start r \<and> (\<forall>q. break_in_window t sub start q \<longrightarrow> q \<le> r))"
proof -
  define l where "l = nat (start + 500)"
  define n where "n = nat (start + 1000) + 1 - length sub - l"
  have r: "r = rfind_down t sub l n"
    using assms(1,2)
    by (simp add: r_def rfind_def Let_def slice_index_def CHUNK_SIZE_def l_def n_def min_def)
  have region: "break_in_window t sub start p \<longleftrightarrow> int l \<le> p \<and> p < int (l + n) \<and> occurs_at t sub (nat p)" for p
    using assms(1,3) unfolding break_in_window_def CHUNK_SIZE_def l_def n_def
    by (cases sub) auto
  show ?thesis
  proof (cases "r = - 1")
    case True
    have "\<not> break_in_window t sub start p" for p
    proof
      assume b: "break_in_window t sub start p"
      then have "l \<le> nat p" "nat p < l + n" "occurs_at t sub (nat p)"
        using region [of p] by auto
      with rfind_down_none [of t sub l n "nat p"] True r show False by simp
    qed
    with True show ?thesis by simp
  next
    case False
    with r rfind_down_hit [of t sub l n] obtain p where p:
      "r = int p" "l \<le> p" "p < l + n" "occurs_at t sub p"
      "\<forall>q. p < q \<and> q < l + n \<longrightarrow> \<not> occurs_at t sub q"
      by auto
    have pos: "0 < r" using p(1,2) assms(1) by (simp add: l_def)
    have hit: "break_in_window t sub start r"
      using p(1-4) by (simp add: region)
    have "q \<le> r" if "break_in_window t sub start q" for q
    proof (rule ccontr)
      assume "\<not> q \<le> r"
      with that p(1) have "p < nat q" "nat q < l + n" "occurs_at t sub (nat q)"
        using region [of q] by auto
      with p(5) show False by blast
    qed
    with pos hit show ?thesis by blast
  qed
qed

lemma cut_point_upper:
  assumes "0 \<le> start"
  shows "cut_point t start \<le> start + CHUNK_SIZE"
proof (cases "start + CHUNK_SIZE < int (length t)")
  case True
  have p: "([LF, LF] :: string) \<noteq> []" and s: "''. '' \<noteq> []" by simp_all
  from rfind_window [OF assms True p] rfind_window [OF assms True s]
  show ?thesis
    using True by (auto simp: cut_point_def Let_def break_in_window_def)
next
  case False
  then show ?thesis by (simp add: cut_point_def Let_def)
qed

subsection \<open>The loop and its trace\<close>

lemma chunk_loop_windows:
  "chunk_loop t start chunks = chunks @ window_chunks t (chunk_windows t start)"
proof (induction t start chunks rule: chunk_loop.induct)
  case (1 t start chunks)
  show ?case
  proof (cases "start < int (length t)")
    case True
    then show ?thesis
      using "1.IH" [OF True refl refl]
      by (subst chunk_loop.simps, subst chunk_windows.simps)
         (simp add: Let_def window_chunks_def)
  next
    case False
    then show ?thesis
      by (subst chunk_loop.simps, subst chunk_windows.simps) (simp add: window_chunks_def)
  qed
qed

lemma next_start_nonneg: "0 \<le> next_start e"
  by (simp add: next_start_def Let_def)

lemma chunk_windows_starts:
  "(s, e) \<in> set (chunk_windows t start) \<Longrightarrow> start \<le> s \<and> s < int (length t) \<and> e = cut_point t s"
proof (induction t start rule: chunk_windows.induct)
  case (1 t start)
  show ?case
  proof (cases "start < int (length t)")
    case True
    from "1.prems" True
    consider "(s, e) = (start, cut_point t start)"
      | "(s, e) \<in> set (chunk_windows t (next_start (cut_point t start)))"
      by (subst (asm) chunk_windows.simps) (auto simp: Let_def)
    then show ?thesis
    proof cases
      case 1
      with True show ?thesis by simp
    next
      case 2
      from "1.IH" [OF True refl 2] next_start_progress [of start t]
      show ?thesis by simp
    qed
  next
    case False
    with "1.prems" show ?thesis
      by (subst (asm) chunk_windows.simps) simp
  qed
qed

lemma chunk_windows_sorted: "sorted_wrt (<) (map fst (chunk_windows t start))"
proof (induction t start rule: chunk_windows.induct)
  case (1 t start)
  show ?case
  proof (cases "start < int (length t)")
    case True
    have "start < s" if "(s, e) \<in> set (chunk_windows t (next_start (cut_point t start)))" for s e
      using chunk_windows_starts [OF that] next_start_progress [of start t] by simp
    then show ?thesis
      using "1.IH" [OF True refl] True
      by (subst chunk_windows.simps) (auto simp: Let_def)
  next
    case False
    then show ?thesis by (subst chunk_windows.simps) simp
  qed
qed

lemma chunk_windows_length:
  "length (chunk_windows t start) \<le> nat (int (length t) - start)"
proof (induction t start rule: chunk_windows.induct)
  case (1 t start)
  show ?case
  proof (cases "start < int (length t)")
    case True
    from "1.IH" [OF True refl] next_start_progress [of start t] True
    show ?thesis
      by (subst chunk_windows.simps) (simp add: Let_def)
  next
    case False
    then show ?thesis by (subst chunk_windows.simps) simp
  qed
qed

section \<open>Claims about the chunker\<close>

text \<open>
  Claim C1. For every text, and so for every text longer than the chunk size, the loop of
  \<open>chunk_text\<close> runs finitely often. In each iteration (the guard \<open>start < len(text)\<close>
  holds) the cut point lies strictly behind \<open>start\<close>, so no break at or before \<open>start\<close>
  is used as a cut point and no step has zero or negative length, and the next scan position
  is strictly greater than \<open>start\<close>. Hence the loop, started at 0, is the finite trace
  \<open>chunk_windows\<close>: its scan positions increase strictly and it has at most
  \<open>len(text)\<close> iterations.
\<close>

theorem chunk_text_terminates:
  "(start < int (length t) \<longrightarrow>
      start < cut_point t start \<and> start < next_start (cut_point t start))
   \<and> chunk_loop t 0 [] = window_chunks t (chunk_windows t 0)
   \<and> sorted_wrt (<) (map fst (chunk_windows t 0))
   \<and> length (chunk_windows t 0) \<le> length t"
proof -
  have "start < cut_point t start"
  proof (cases "0 \<le> start")
    case True
    from cut_point_lower [OF True, of t] show ?thesis by simp
  next
    case False
    then show ?thesis by (simp add: cut_point_positive)
  qed
  moreover have "chunk_loop t 0 [] = window_chunks t (chunk_windows t 0)"
    by (simp add: chunk_loop_windows)
  moreover have "length (chunk_windows t 0) \<le> length t"
    using chunk_windows_length [of t 0] by simp
  ultimately show ?thesis
    by (simp add: next_start_progress chunk_windows_sorted)
qed

theorem chunk_text_terminates_witness:
  "(0::int) < int (length (replicate 1200 (CHR ''a'')))
   \<and> 0 < cut_point (replicate 1200 (CHR ''a'')) 0
   \<and> 0 < next_start (cut_point (replicate 1200 (CHR ''a'')) 0)"
  using chunk_text_terminates [of 0 "replicate 1200 (CHR ''a'')"] by simp



lemma window_chunk_bounded:
  assumes "(s, e) \<in> set (chunk_windows t 0)"
  shows "int (length (strip (slice t s e))) \<le> CHUNK_SIZE"
proof -
  from chunk_windows_starts [OF assms] have s: "0 \<le> s" and e: "e = cut_point t s"
    by simp_all
  from cut_point_lower [OF s, of t] cut_point_upper [OF s, of t] e
  have "s \<le> e" "e - s \<le> CHUNK_SIZE" by simp_all
  with length_slice_le [OF s \<open>s \<le> e\<close>, of t] length_strip_le [of "slice t s e"]
  show ?thesis by linarith
qed

text \<open>
  Claim C10. Every chunk that \<open>chunk_text\<close> returns has at most \<open>CHUNK_SIZE\<close> = 1000
  characters and is a contiguous substring of the newline-normalised, trimmed input; it is
  never empty.
\<close>

theorem chunk_text_chunks_bounded:
  assumes "c \<in> set (chunk_text t)"
  shows "int (length c) \<le> CHUNK_SIZE \<and> sublist c (strip (replace_crlf t)) \<and> c \<noteq> []"
proof (cases "int (length (strip (replace_crlf t))) \<le> CHUNK_SIZE")
  case True
  with assms have "c = strip (replace_crlf t)" "c \<noteq> []"
    by (auto simp: chunk_text_def Let_def split: if_splits)
  with True show ?thesis by simp
next
  case False
  define n where "n = strip (replace_crlf t)"
  from False assms have "c \<in> set (window_chunks n (chunk_windows n 0))"
    by (simp add: chunk_text_def Let_def n_def chunk_loop_windows)
  then obtain s e where w: "(s, e) \<in> set (chunk_windows n 0)" and c: "c = strip (slice n s e)"
    and ne: "c \<noteq> []"
    by (auto simp: window_chunks_def)
  have "sublist c n"
    unfolding c by (rule sublist_order.order.trans [OF sublist_strip sublist_slice])
  with window_chunk_bounded [OF w] c ne show ?thesis
    by (simp add: n_def)
qed

theorem chunk_text_chunks_bounded_witness:
  "''hello'' \<in> set (chunk_text ''  hello '')
   \<and> int (length ''hello'') \<le> CHUNK_SIZE \<and> sublist ''hello'' (strip (replace_crlf ''  hello ''))"
proof -
  have "chunk_text ''  hello '' = [''hello'']" by code_simp
  then have h: "''hello'' \<in> set (chunk_text ''  hello '')" by simp
  from chunk_text_chunks_bounded [OF h] h show ?thesis by simp
qed

lemma char_not_in_no_break:
  assumes "c \<in> set sub" and "c \<notin> set t"
  shows "\<not> break_in_window t sub start p"
proof
  assume "break_in_window t sub start p"
  then have "sublist sub t"
    by (auto simp: break_in_window_def dest: occurs_at_sublist)
  from set_mono_sublist [OF this] assms show False by blast
qed

text \<open>
  Claim C5. For a window that starts at \<open>start \<ge> 0\<close> and whose right edge
  \<open>start + CHUNK_SIZE\<close> lies strictly before the end of the text: if a paragraph break
  lies between the midpoint and the right edge of the window, the cut point is the position
  of the last such break (the first one met when searching backward from the right edge);
  otherwise, if a sentence break lies in that region, the cut point is one past the position
  of the last such break, that is, directly behind its full stop; otherwise the cut point is
  \<open>start + CHUNK_SIZE\<close>.
\<close>

theorem cut_point_choice:
  assumes "0 \<le> start" and "start + CHUNK_SIZE < int (length t)"
  shows "((\<exists>p. break_in_window t [LF, LF] start p) \<longrightarrow>
            break_in_window t [LF, LF] start (cut_point t start)
            \<and> (\<forall>q. break_in_window t [LF, LF] start q \<longrightarrow> q \<le> cut_point t start))
       \<and> ((\<forall>p. \<not> break_in_window t [LF, LF] start p) \<and> (\<exists>p. break_in_window t ''. '' start p) \<longrightarrow>
            break_in_window t ''. '' start (cut_point t start - 1)
            \<and> (\<forall>q. break_in_window t ''. '' start q \<longrightarrow> q \<le> cut_point t start - 1))
       \<and> ((\<forall>p. \<not> break_in_window t [LF, LF] start p) \<and> (\<forall>p. \<not> break_in_window t ''. '' start p) \<longrightarrow>
            cut_point t start = start + CHUNK_SIZE)"
proof -
  define pb where "pb = rfind t [LF, LF] (start + CHUNK_SIZE div 2) (start + CHUNK_SIZE)"
  define sb where "sb = rfind t ''. '' (start + CHUNK_SIZE div 2) (start + CHUNK_SIZE)"
  have cut: "cut_point t start = (if pb > 0 then pb else if sb > 0 then sb + 1 else start + CHUNK_SIZE)"
    using assms(2) by (simp add: cut_point_def Let_def pb_def sb_def)
  have p: "([LF, LF] :: string) \<noteq> []" and s: "''. '' \<noteq> []" by simp_all
  have para: "(pb = - 1 \<and> (\<forall>p. \<not> break_in_window t [LF, LF] start p))
       \<or> (0 < pb \<and> break_in_window t [LF, LF] start pb
           \<and> (\<forall>q. break_in_window t [LF, LF] start q \<longrightarrow> q \<le> pb))"
    unfolding pb_def by (rule rfind_window [OF assms p])
  have sent: "(sb = - 1 \<and> (\<forall>p. \<not> break_in_window t ''. '' start p))
       \<or> (0 < sb \<and> break_in_window t ''. '' start sb
           \<and> (\<forall>q. break_in_window t ''. '' start q \<longrightarrow> q \<le> sb))"
    unfolding sb_def by (rule rfind_window [OF assms s])
  have c1: "break_in_window t [LF, LF] start (cut_point t start)
            \<and> (\<forall>q. break_in_window t [LF, LF] start q \<longrightarrow> q \<le> cut_point t start)"
    if "\<exists>p. break_in_window t [LF, LF] start p"
    using para that cut by auto
  have c2: "break_in_window t ''. '' start (cut_point t start - 1)
            \<and> (\<forall>q. break_in_window t ''. '' start q \<longrightarrow> q \<le> cut_point t start - 1)"
    if "\<forall>p. \<not> break_in_window t [LF, LF] start p" and "\<exists>p. break_in_window t ''. '' start p"
  proof -
    from para that(1) have "pb = - 1" by blast
    moreover from sent that(2) have "0 < sb \<and> break_in_window t ''. '' start sb
           \<and> (\<forall>q. break_in_window t ''. '' start q \<longrightarrow> q \<le> sb)" by blast
    ultimately show ?thesis using cut by simp
  qed
  have c3: "cut_point t start = start + CHUNK_SIZE"
    if "\<forall>p. \<not> break_in_window t [LF, LF] start p" and "\<forall>p. \<not> break_in_window t ''. '' start p"
  proof -
    from para that(1) have "pb = - 1" by blast
    moreover from sent that(2) have "sb = - 1" by blast
    ultimately show ?thesis using cut by simp
  qed
  from c1 c2 c3 show ?thesis by blast
qed

theorem cut_point_choice_witness:
  "break_in_window (replicate 600 (CHR ''a'') @ [LF, LF] @ replicate 600 (CHR ''a'')) [LF, LF] 0 600
   \<and> 600 \<le> cut_point (replicate 600 (CHR ''a'') @ [LF, LF] @ replicate 600 (CHR ''a'')) 0
   \<and> break_in_window (replicate 600 (CHR ''a'') @ ''. '' @ replicate 600 (CHR ''a'')) ''. '' 0 600
   \<and> 600 \<le> cut_point (replicate 600 (CHR ''a'') @ ''. '' @ replicate 600 (CHR ''a'')) 0 - 1
   \<and> cut_point (replicate 1200 (CHR ''a'')) 0 = 1000"
proof -
  let ?A = "replicate 600 (CHR ''a'') @ [LF, LF] @ replicate 600 (CHR ''a'')"
  let ?B = "replicate 600 (CHR ''a'') @ ''. '' @ replicate 600 (CHR ''a'')"
  let ?C = "replicate 1200 (CHR ''a'')"
  have z: "(0::int) \<le> 0" by simp
  have lA: "0 + CHUNK_SIZE < int (length ?A)" by (simp add: CHUNK_SIZE_def)
  have lB: "0 + CHUNK_SIZE < int (length ?B)" by (simp add: CHUNK_SIZE_def)
  have lC: "0 + CHUNK_SIZE < int (length ?C)" by (simp add: CHUNK_SIZE_def)
  have bA: "break_in_window ?A [LF, LF] 0 600"
    by (simp add: break_in_window_def CHUNK_SIZE_def occurs_at_def)
  have bB: "break_in_window ?B ''. '' 0 600"
    by (simp add: break_in_window_def CHUNK_SIZE_def occurs_at_def)
  have nB: "\<forall>p. \<not> break_in_window ?B [LF, LF] 0 p"
    by (intro allI char_not_in_no_break [of LF]) (simp_all add: LF_def)
  have nC1: "\<forall>p. \<not> break_in_window ?C [LF, LF] 0 p"
    by (intro allI char_not_in_no_break [of LF]) (simp_all add: LF_def)
  have nC2: "\<forall>p. \<not> break_in_window ?C ''. '' 0 p"
    by (intro allI char_not_in_no_break [of "CHR ''.''"]) simp_all
  from cut_point_choice [OF z lA] bA have "600 \<le> cut_point ?A 0" by blast
  moreover from cut_point_choice [OF z lB] nB bB have "600 \<le> cut_point ?B 0 - 1" by blast
  moreover from cut_point_choice [OF z lC] nC1 nC2 have "cut_point ?C 0 = 1000"
    by (simp add: CHUNK_SIZE_def)
  ultimately show ?thesis using bA bB by blast
qed

lemma cut_point_no_breaks:
  assumes "\<not> sublist [LF, LF] t" and "\<not> sublist ''. '' t"
  shows "cut_point t start = start + CHUNK_SIZE"
  using assms by (simp add: cut_point_def Let_def rfind_absent)

lemma chunk_windows_2500:
  assumes "length t = 2500" and "\<not> sublist [LF, LF] t" and "\<not> sublist ''. '' t"
  shows "chunk_windows t 0 = [(0, 1000), (800, 1800), (1600, 2600), (2400, 3400)]"
proof -
  have c: "cut_point t s = s + 1000" for s
    using cut_point_no_breaks [OF assms(2,3)] by (simp add: CHUNK_SIZE_def)
  have n: "next_start 1000 = 800" "next_start 1800 = 1600" "next_start 2600 = 2400"
    "next_start 3400 = 3200"
    by (simp_all add: next_start_def CHUNK_OVERLAP_def)
  have "chunk_windows t 3200 = []"
    using assms(1) by (subst chunk_windows.simps) simp
  then have "chunk_windows t 2400 = [(2400, 3400)]"
    using assms(1) by (subst chunk_windows.simps) (simp add: c n)
  then have "chunk_windows t 1600 = [(1600, 2600), (2400, 3400)]"
    using assms(1) by (subst chunk_windows.simps) (simp add: c n)
  then have "chunk_windows t 800 = [(800, 1800), (1600, 2600), (2400, 3400)]"
    using assms(1) by (subst chunk_windows.simps) (simp add: c n)
  then show ?thesis
    using assms(1) by (subst chunk_windows.simps) (simp add: c n)
qed

lemma chunk_text_2500:
  assumes "length t = 2500" and "\<not> sublist [LF, LF] t" and "\<not> sublist ''. '' t"
    and "\<not> sublist [CR, LF] t" and "\<not> is_space (hd t)" and "\<not> is_space (last t)"
  shows "chunk_text t =
     filter (\<lambda>c. c \<noteq> [])
       [strip (slice t 0 1000), strip (slice t 800 1800), strip (slice t 1600 2600),
        strip (slice t 2400 3400)]"
proof -
  from assms(1) have ne: "t \<noteq> []" by auto
  have "strip (replace_crlf t) = t"
    using replace_crlf_ident [OF assms(4)] strip_ident [OF ne assms(5,6)] by simp
  then show ?thesis
    using assms(1) chunk_windows_2500 [OF assms(1-3)]
    by (simp add: chunk_text_def CHUNK_SIZE_def chunk_loop_windows window_chunks_def)
qed

lemma strip_nonempty_hd:
  assumes "s \<noteq> []" and "\<not> is_space (hd s)"
  shows "strip s \<noteq> []"
  using assms by (cases s) (auto simp: strip_eq_Nil_iff)

lemma strip_nonempty_last:
  assumes "s \<noteq> []" and "\<not> is_space (last s)"
  shows "strip s \<noteq> []"
proof
  assume "strip s = []"
  then have "\<forall>x \<in> set s. is_space x" by (simp add: strip_eq_Nil_iff list_all_iff)
  with assms show False using last_in_set by blast
qed

lemma gap_text_props:
  "length gap_text = 2500" "set gap_text = {CHR ''a'', CHR '' ''}"
  "hd gap_text = CHR ''a''" "last gap_text = CHR ''a''"
  by (auto simp: gap_text_def)

lemma is_space_simps: "\<not> is_space (CHR ''a'')" "is_space (CHR '' '')"
  by (simp_all add: is_space_def)

text \<open>
  Claim C6, as amended. For every 2500-character text with no paragraph break, no sentence
  break and no \<open>CR LF\<close> pair, whose first and last characters are not whitespace and whose
  characters 800 to 1799 are not all whitespace, \<open>chunk_text\<close> returns exactly 4 chunks,
  the trimmed slices of the windows \<open>[0, 1000)\<close>, \<open>[800, 1800)\<close>, \<open>[1600, 2600)\<close> and
  \<open>[2400, 3400)\<close>; each has at most 1000 characters, and each window starts 200 characters
  before the end of the one before it.
\<close>

theorem chunk_text_2500_four_chunks:
  assumes "length t = 2500" and "\<not> sublist [LF, LF] t" and "\<not> sublist ''. '' t"
    and "\<not> sublist [CR, LF] t" and "\<not> is_space (hd t)" and "\<not> is_space (last t)"
    and "\<not> list_all is_space (slice t 800 1800)"
  shows "chunk_windows (strip (replace_crlf t)) 0 = [(0, 1000), (800, 1800), (1600, 2600), (2400, 3400)]
       \<and> chunk_text t =
           [strip (slice t 0 1000), strip (slice t 800 1800), strip (slice t 1600 2600),
            strip (slice t 2400 3400)]
       \<and> length (chunk_text t) = 4
       \<and> list_all (\<lambda>c. length c \<le> 1000) (chunk_text t)"
proof -
  from assms(1) have ne: "t \<noteq> []" by auto
  have norm: "strip (replace_crlf t) = t"
    using replace_crlf_ident [OF assms(4)] strip_ident [OF ne assms(5,6)] by simp
  have s1: "slice t 0 1000 = take 1000 t"
    using assms(1) by (simp add: slice_def slice_index_def)
  have s3: "slice t 1600 2600 = drop 1600 t"
    using assms(1) by (simp add: slice_def slice_index_def)
  have s4: "slice t 2400 3400 = drop 2400 t"
    using assms(1) by (simp add: slice_def slice_index_def)
  have c1: "strip (slice t 0 1000) \<noteq> []"
    unfolding s1 using assms(1,5) ne by (intro strip_nonempty_hd) (auto simp: hd_take)
  have c2: "strip (slice t 800 1800) \<noteq> []"
    using assms(7) by (simp add: strip_eq_Nil_iff)
  have c3: "strip (slice t 1600 2600) \<noteq> []"
    unfolding s3 using assms(1,6) by (intro strip_nonempty_last) simp_all
  have c4: "strip (slice t 2400 3400) \<noteq> []"
    unfolding s4 using assms(1,6) by (intro strip_nonempty_last) simp_all
  have eq: "chunk_text t =
           [strip (slice t 0 1000), strip (slice t 800 1800), strip (slice t 1600 2600),
            strip (slice t 2400 3400)]"
    using chunk_text_2500 [OF assms(1-6)] c1 c2 c3 c4 by simp
  have len: "length (strip (slice t lo hi)) \<le> 1000" if "0 \<le> lo" "lo \<le> hi" "hi - lo \<le> 1000" for lo hi
    using length_slice_le [OF that(1,2), of t] length_strip_le [of "slice t lo hi"] that(3)
    by linarith
  have "list_all (\<lambda>c. length c \<le> 1000) (chunk_text t)"
    unfolding eq by (simp add: len)
  with eq norm chunk_windows_2500 [OF assms(1-3)] show ?thesis by simp
qed

theorem chunk_text_2500_four_chunks_witness:
  "length (replicate 2500 (CHR ''a'')) = 2500
   \<and> \<not> sublist [LF, LF] (replicate 2500 (CHR ''a''))
   \<and> \<not> sublist ''. '' (replicate 2500 (CHR ''a''))
   \<and> \<not> sublist [CR, LF] (replicate 2500 (CHR ''a''))
   \<and> \<not> is_space (hd (replicate 2500 (CHR ''a'')))
   \<and> \<not> is_space (last (replicate 2500 (CHR ''a'')))
   \<and> \<not> list_all is_space (slice (replicate 2500 (CHR ''a'')) 800 1800)
   \<and> length (chunk_text (replicate 2500 (CHR ''a''))) = 4"
proof -
  let ?t = "replicate 2500 (CHR ''a'')"
  have len: "length ?t = 2500" by simp
  have np: "\<not> sublist [LF, LF] ?t"
    using set_mono_sublist [of "[LF, LF]" ?t] by (auto simp: LF_def)
  have ns: "\<not> sublist ''. '' ?t"
    using set_mono_sublist [of "''. ''" ?t] by auto
  have nc: "\<not> sublist [CR, LF] ?t"
    using set_mono_sublist [of "[CR, LF]" ?t] by (auto simp: LF_def)
  have h: "\<not> is_space (hd ?t)" and l: "\<not> is_space (last ?t)"
    by (simp_all add: is_space_simps)
  have w: "\<not> list_all is_space (slice ?t 800 1800)"
    by (simp add: slice_def slice_index_def list_all_iff is_space_simps)
  from chunk_text_2500_four_chunks [OF len np ns nc h l w]
  have "length (chunk_text ?t) = 4" by blast
  with len np ns nc h l w show ?thesis by blast
qed

text \<open>
  The claim C6 as it was stated fails: \<open>gap_text\<close> is a 2500-character plain ASCII text
  without paragraph or sentence breaks and without whitespace at its ends, and
  \<open>chunk_text\<close> returns 3 chunks for it, because the window \<open>[800, 1800)\<close> is blank and
  the loop appends no empty chunk.
\<close>

theorem chunk_text_2500_counterexample:
  "length gap_text = 2500 \<and> plain_ascii gap_text
   \<and> \<not> sublist [LF, LF] gap_text \<and> \<not> sublist ''. '' gap_text
   \<and> \<not> is_space (hd gap_text) \<and> \<not> is_space (last gap_text)
   \<and> length (chunk_text gap_text) = 3"
proof -
  have np: "\<not> sublist [LF, LF] gap_text"
    using set_mono_sublist [of "[LF, LF]" gap_text] by (auto simp: gap_text_props LF_def)
  have ns: "\<not> sublist ''. '' gap_text"
    using set_mono_sublist [of "''. ''" gap_text] by (auto simp: gap_text_props)
  have nc: "\<not> sublist [CR, LF] gap_text"
    using set_mono_sublist [of "[CR, LF]" gap_text] by (auto simp: gap_text_props LF_def)
  have h: "\<not> is_space (hd gap_text)" and l: "\<not> is_space (last gap_text)"
    by (simp_all add: gap_text_props is_space_simps)
  have asc: "plain_ascii gap_text"
    by (simp add: plain_ascii_def list_all_iff gap_text_props)
  have w1: "slice gap_text 0 1000 = replicate 800 (CHR ''a'') @ replicate 200 (CHR '' '')"
    by (simp add: slice_def slice_index_def gap_text_def)
  have w2: "slice gap_text 800 1800 = replicate 1000 (CHR '' '')"
    by (simp add: slice_def slice_index_def gap_text_def)
  have w3: "slice gap_text 1600 2600 = replicate 200 (CHR '' '') @ replicate 700 (CHR ''a'')"
    by (simp add: slice_def slice_index_def gap_text_def)
  have w4: "slice gap_text 2400 3400 = replicate 100 (CHR ''a'')"
    by (simp add: slice_def slice_index_def gap_text_def)
  have e: "strip (slice gap_text 0 1000) \<noteq> []" "strip (slice gap_text 800 1800) = []"
    "strip (slice gap_text 1600 2600) \<noteq> []" "strip (slice gap_text 2400 3400) \<noteq> []"
    unfolding w1 w2 w3 w4 by (simp_all add: strip_eq_Nil_iff list_all_iff is_space_simps)
  from chunk_text_2500 [OF gap_text_props(1) np ns nc h l] e
  have "length (chunk_text gap_text) = 3" by simp
  with np ns h l asc gap_text_props(1) show ?thesis by blast
qed

section \<open>Claims about the chat pipeline\<close>









lemma last6_drop: "last6 xs = drop (length xs - 6) xs"
proof -
  have "nat (int (length xs) - 6) = length xs - 6" by arith
  then show ?thesis
    by (simp add: last6_def slice_def slice_index_def Let_def)
qed

lemma history_messages_wellformed:
  assumes "\<forall>m \<in> set hs. m ''role'' \<noteq> None \<and> m ''content'' \<noteq> None"
  shows "history_messages hs = Inr (map (\<lambda>m. \<lparr>role = the (m ''role''), content = the (m ''content'')\<rparr>) hs)"
  using assms by (induction hs) (auto simp: history_message_def)

text \<open>
  Claim C9. For a history of any length whose last six entries have the keys \<open>role\<close> and
  \<open>content\<close>, the message list sent to the chat model is the system prompt, the context
  message, the last six history entries (all of them when there are fewer) in their original
  order, and the user's question as the last message. Without a history it is the two
  system messages and the question.
\<close>

theorem answer_messages_history:
  assumes "\<forall>m \<in> set (last6 h). m ''role'' \<noteq> None \<and> m ''content'' \<noteq> None"
  shows "answer_messages question context (Some h) =
           Inr ([\<lparr>role = ''system'', content = SYSTEM_PROMPT\<rparr>,
                 if context \<noteq> [] then context_block context else no_documents_notice]
                @ map (\<lambda>m. \<lparr>role = the (m ''role''), content = the (m ''content'')\<rparr>) (last6 h)
                @ [\<lparr>role = ''user'', content = question\<rparr>])
       \<and> last6 h = drop (length h - 6) h
       \<and> length (last6 h) \<le> 6
       \<and> answer_messages question context None =
           Inr [\<lparr>role = ''system'', content = SYSTEM_PROMPT\<rparr>,
                if context \<noteq> [] then context_block context else no_documents_notice,
                \<lparr>role = ''user'', content = question\<rparr>]"
proof -
  have e: "last6 [] = ([] :: (string \<rightharpoonup> string) list)" by (simp add: last6_drop)
  have "answer_messages question context (Some h) =
           Inr ([\<lparr>role = ''system'', content = SYSTEM_PROMPT\<rparr>,
                 if context \<noteq> [] then context_block context else no_documents_notice]
                @ map (\<lambda>m. \<lparr>role = the (m ''role''), content = the (m ''content'')\<rparr>) (last6 h)
                @ [\<lparr>role = ''user'', content = question\<rparr>])"
  proof (cases "h = []")
    case True
    then show ?thesis by (simp add: answer_messages_def e)
  next
    case False
    then show ?thesis
      by (simp add: answer_messages_def history_messages_wellformed [OF assms])
  qed
  moreover have "length (last6 h) \<le> 6" by (simp add: last6_drop)
  moreover have "answer_messages question context None =
           Inr [\<lparr>role = ''system'', content = SYSTEM_PROMPT\<rparr>,
                if context \<noteq> [] then context_block context else no_documents_notice,
                \<lparr>role = ''user'', content = question\<rparr>]"
    by (simp add: answer_messages_def)
  ultimately show ?thesis by (simp add: last6_drop)
qed

theorem answer_messages_history_witness:
  "list_all (\<lambda>m. m ''role'' \<noteq> None \<and> m ''content'' \<noteq> None) (last6 eight_turns)
   \<and> answer_messages ''q'' ''ctx'' (Some eight_turns) =
       Inr [\<lparr>role = ''system'', content = SYSTEM_PROMPT\<rparr>, context_block ''ctx'',
            \<lparr>role = ''user'', content = ''3''\<rparr>, \<lparr>role = ''assistant'', content = ''4''\<rparr>,
            \<lparr>role = ''user'', content = ''5''\<rparr>, \<lparr>role = ''assistant'', content = ''6''\<rparr>,
            \<lparr>role = ''user'', content = ''7''\<rparr>, \<lparr>role = ''assistant'', content = ''8''\<rparr>,
            \<lparr>role = ''user'', content = ''q''\<rparr>]"
proof -
  have l: "last6 eight_turns = drop 2 eight_turns"
    by (simp add: last6_drop eight_turns_def)
  have w: "\<forall>m \<in> set (last6 eight_turns). m ''role'' \<noteq> None \<and> m ''content'' \<noteq> None"
    unfolding l by (simp add: eight_turns_def turn_def)
  from answer_messages_history [OF w, of "''q''" "''ctx''"]
  have "answer_messages ''q'' ''ctx'' (Some eight_turns) =
       Inr ([\<lparr>role = ''system'', content = SYSTEM_PROMPT\<rparr>, context_block ''ctx'']
            @ map (\<lambda>m. \<lparr>role = the (m ''role''), content = the (m ''content'')\<rparr>) (drop 2 eight_turns)
            @ [\<lparr>role = ''user'', content = ''q''\<rparr>])"
    unfolding l by simp
  moreover from w
  have "list_all (\<lambda>m. m ''role'' \<noteq> None \<and> m ''content'' \<noteq> None) (last6 eight_turns)"
    by (simp add: list_all_iff)
  ultimately show ?thesis by (simp add: eight_turns_def turn_def)
qed

section \<open>Claims about the upload\<close>





subsection \<open>Records of an upload\<close>







end
